theory Spec2Isabelle
  imports Main "HOL-Library.Multiset"
begin

section \<open>The file tree the programs run on\<close>

text \<open>
  \<^verbatim>\<open>character_manager.py\<close> and \<^verbatim>\<open>zip_utils.py\<close> only read the file system, through
  \<^verbatim>\<open>pathlib\<close>. A call sees one snapshot of the tree: a node is a regular file or a
  directory, carries the two \<^verbatim>\<open>stat\<close> fields the code reads (\<^verbatim>\<open>st_size\<close> in bytes,
  \<^verbatim>\<open>st_ctime\<close> as the microsecond instant \<^verbatim>\<open>datetime.fromtimestamp\<close> makes of it),
  and a file carries what \<^verbatim>\<open>json.load\<close> returns for its content (\<open>None\<close> when it
  raises). A directory lists its entries in the order \<^verbatim>\<open>os.scandir\<close> yields them.
  Paths are lists of components; names are compared as on a POSIX system (case
  sensitive). Permissions, symbolic links and changes of the tree during a call are
  outside the model.
\<close>

type_synonym fpath = "string list"

datatype json =
    JNull
  | JBool bool
  | JNum int
  | JStr string
  | JList "json list"
  | JObj "(string \<times> json) list"

datatype node =
    File nat int "json option"
  | Dir nat int "(string \<times> node) list"

datatype error =
    NotADirectoryError fpath
  | FileNotFoundError fpath
  | OverflowError

fun st_size :: "node \<Rightarrow> nat" where
  "st_size (File sz ct js) = sz"
| "st_size (Dir sz ct cs) = sz"

fun st_ctime :: "node \<Rightarrow> int" where
  "st_ctime (File sz ct js) = ct"
| "st_ctime (Dir sz ct cs) = ct"

fun is_dir :: "node \<Rightarrow> bool" where
  "is_dir (File sz ct js) = False"
| "is_dir (Dir sz ct cs) = True"

fun lookup :: "node \<Rightarrow> fpath \<Rightarrow> node option" where
  "lookup n [] = Some n"
| "lookup n (x # xs) =
     (case n of
        File sz ct js \<Rightarrow> None
      | Dir sz ct cs \<Rightarrow> (case map_of cs x of None \<Rightarrow> None | Some c \<Rightarrow> lookup c xs))"

definition exists_path :: "node \<Rightarrow> fpath \<Rightarrow> bool" where
  "exists_path fs p = (lookup fs p \<noteq> None)"

definition is_dir_path :: "node \<Rightarrow> fpath \<Rightarrow> bool" where
  "is_dir_path fs p = (case lookup fs p of None \<Rightarrow> False | Some n \<Rightarrow> is_dir n)"

definition stat_size :: "node \<Rightarrow> fpath \<Rightarrow> nat" where
  "stat_size fs p = (case lookup fs p of None \<Rightarrow> 0 | Some n \<Rightarrow> st_size n)"

text \<open>\<^verbatim>\<open>Path.name\<close>: the last component, the empty string for the empty path.\<close>

definition path_name :: "fpath \<Rightarrow> string" where
  "path_name p = (if p = [] then [] else last p)"

text \<open>\<^verbatim>\<open>str.startswith\<close>.\<close>

definition startswith :: "string \<Rightarrow> string \<Rightarrow> bool" where
  "startswith s pre = (take (length pre) s = pre)"

text \<open>
  The glob patterns of the source all have the shape \<^verbatim>\<open>prefix*suffix\<close>
  (\<^verbatim>\<open>Session_*\<close>, \<^verbatim>\<open>Char_*\<close>, \<^verbatim>\<open>Base-*.png\<close>, \<^verbatim>\<open>*metadata.json\<close>,
  \<^verbatim>\<open>Realistic_*.png\<close>, \<^verbatim>\<open>*.png\<close>, \<^verbatim>\<open>*.json\<close>): a name matches when it starts with
  the prefix, ends with the suffix and the two do not overlap. \<^verbatim>\<open>pathlib\<close> matches
  hidden names and directories like any other entry.
\<close>

definition fnmatch :: "string \<Rightarrow> string \<Rightarrow> string \<Rightarrow> bool" where
  "fnmatch pre suf name =
     (length pre + length suf \<le> length name \<and>
      take (length pre) name = pre \<and>
      drop (length name - length suf) name = suf)"

text \<open>\<^verbatim>\<open>Path.iterdir\<close> raises on a missing path and on a regular file.\<close>

definition iterdir :: "node \<Rightarrow> fpath \<Rightarrow> error + fpath list" where
  "iterdir fs p =
     (case lookup fs p of
        None \<Rightarrow> Inl (FileNotFoundError p)
      | Some (File sz ct js) \<Rightarrow> Inl (NotADirectoryError p)
      | Some (Dir sz ct cs) \<Rightarrow> Inr (map (\<lambda>(name, c). p @ [name]) cs))"

text \<open>\<^verbatim>\<open>Path.glob\<close> yields nothing when the path is not a directory.\<close>

definition glob :: "node \<Rightarrow> fpath \<Rightarrow> string \<Rightarrow> string \<Rightarrow> fpath list" where
  "glob fs p pre suf =
     (case lookup fs p of
        Some (Dir sz ct cs) \<Rightarrow> map (\<lambda>(name, c). p @ [name]) (filter (\<lambda>(name, c). fnmatch pre suf name) cs)
      | _ \<Rightarrow> [])"

section \<open>character\_manager.py\<close>

subsection \<open>CharacterInfo\<close>

text \<open>
  The dataclass. \<open>styled_counts\<close> is a Python dict, kept as an association list in
  insertion order; \<open>creation_date\<close> is a \<^verbatim>\<open>datetime\<close>, kept as microseconds. The field
  \<^verbatim>\<open>generation_time\<close> is never written or read by the code modelled here and is left out.
  A Python \<^verbatim>\<open>None\<close> in an optional field is \<open>None\<close>.
\<close>

record CharacterInfo =
  session_id :: string
  character_id :: string
  path :: fpath
  creation_date :: int
  base_image_path :: "fpath option"
  base_metadata :: "json option"
  realistic_count :: nat
  styled_counts :: "(string \<times> nat) list"
  total_images :: nat
  character_config :: "json option"
  prompt :: "json option"

text \<open>Python truthiness of a decoded JSON value.\<close>

fun truthy :: "json \<Rightarrow> bool" where
  "truthy JNull = False"
| "truthy (JBool b) = b"
| "truthy (JNum n) = (n \<noteq> 0)"
| "truthy (JStr s) = (s \<noteq> [])"
| "truthy (JList xs) = (xs \<noteq> [])"
| "truthy (JObj kvs) = (kvs \<noteq> [])"

definition opt_truthy :: "json option \<Rightarrow> bool" where
  "opt_truthy v = (case v of None \<Rightarrow> False | Some j \<Rightarrow> truthy j)"

text \<open>A decoded JSON \<^verbatim>\<open>null\<close> is Python's \<^verbatim>\<open>None\<close>.\<close>

definition py_value :: "json option \<Rightarrow> json option" where
  "py_value v = (case v of Some JNull \<Rightarrow> None | _ \<Rightarrow> v)"

text \<open>\<^verbatim>\<open>d[k] = v\<close> on a dict: an existing key keeps its place.\<close>

fun dict_set :: "('k \<times> 'v) list \<Rightarrow> 'k \<Rightarrow> 'v \<Rightarrow> ('k \<times> 'v) list" where
  "dict_set [] k v = [(k, v)]"
| "dict_set ((k', v') # d) k v = (if k' = k then (k, v) # d else (k', v') # dict_set d k v)"

subsection \<open>\_analyze\_character\_directory\<close>

definition base_image_candidates :: "string list" where
  "base_image_candidates = [''Base-Character.png'', ''Base-Image.png'']"

definition find_base_image :: "node \<Rightarrow> fpath \<Rightarrow> fpath option" where
  "find_base_image fs char_path =
     find (exists_path fs) (map (\<lambda>candidate. char_path @ [candidate]) base_image_candidates)"

text \<open>
  \<^verbatim>\<open>open\<close> raises on a directory and \<^verbatim>\<open>json.load\<close> on malformed content; both are
  caught by the inner \<^verbatim>\<open>except\<close>, which leaves the three fields at \<^verbatim>\<open>None\<close>.
  \<^verbatim>\<open>.get\<close> on a truthy value that is not a dict raises \<^verbatim>\<open>AttributeError\<close>, caught at the
  same place after \<open>base_metadata\<close> has been assigned.
  The result is (\<open>base_metadata\<close>, \<open>prompt\<close>, \<open>character_config\<close>).
\<close>

definition json_load :: "node \<Rightarrow> json option" where
  "json_load n = (case n of File sz ct js \<Rightarrow> js | Dir sz ct cs \<Rightarrow> None)"

definition load_base_metadata :: "node \<Rightarrow> fpath \<Rightarrow> json option \<times> json option \<times> json option" where
  "load_base_metadata fs char_path =
     (let p1 = char_path @ [''base_character_metadata.json''];
          base_metadata_path =
            (if exists_path fs p1 then p1 else char_path @ [''base_image_metadata.json''])
      in case lookup fs base_metadata_path of
           None \<Rightarrow> (None, None, None)
         | Some n \<Rightarrow>
             (case json_load n of
                None \<Rightarrow> (None, None, None)
              | Some md \<Rightarrow>
                  if truthy md then
                    (case md of
                       JObj kvs \<Rightarrow>
                         (Some md, py_value (map_of kvs ''prompt''),
                          if ''parameters'' \<in> set (map fst kvs) then Some (JObj []) else None)
                     | _ \<Rightarrow> (Some md, None, None))
                  else (py_value (Some md), None, None)))"

fun count_styles :: "node \<Rightarrow> fpath list \<Rightarrow> (string \<times> nat) list \<Rightarrow> (string \<times> nat) list" where
  "count_styles fs [] d = d"
| "count_styles fs (style_dir # rest) d =
     (if is_dir_path fs style_dir
      then count_styles fs rest
             (dict_set d (path_name style_dir) (length (glob fs style_dir [] ''.png'')))
      else count_styles fs rest d)"

text \<open>
  The styled counts, or the exception of \<^verbatim>\<open>styles_path.iterdir()\<close> when \<^verbatim>\<open>Styles\<close>
  exists and is not a directory.
\<close>

definition styled_counts_of :: "node \<Rightarrow> fpath \<Rightarrow> error + (string \<times> nat) list" where
  "styled_counts_of fs char_path =
     (let styles_path = char_path @ [''Styles'']
      in if exists_path fs styles_path
         then (case iterdir fs styles_path of
                 Inl e \<Rightarrow> Inl e
               | Inr ds \<Rightarrow> Inr (count_styles fs ds []))
         else Inr [])"

definition base_image_count :: "node \<Rightarrow> fpath option \<Rightarrow> nat" where
  "base_image_count fs b = (case b of None \<Rightarrow> 0 | Some bp \<Rightarrow> if exists_path fs bp then 1 else 0)"

text \<open>
  The outer \<^verbatim>\<open>except\<close> turns every exception (the \<^verbatim>\<open>stat\<close> of a missing directory, the
  \<^verbatim>\<open>iterdir\<close> of a \<^verbatim>\<open>Styles\<close> that is a file) into \<^verbatim>\<open>None\<close>.
\<close>

definition analyze_character_directory ::
    "node \<Rightarrow> string \<Rightarrow> string \<Rightarrow> fpath \<Rightarrow> CharacterInfo option" where
  "analyze_character_directory fs sid cid char_path =
     (case lookup fs char_path of
        None \<Rightarrow> None
      | Some n \<Rightarrow>
          (let base = find_base_image fs char_path;
               (md, pr, cfg) = load_base_metadata fs char_path;
               consistency_path = char_path @ [''ConsistencyTests''];
               rc = (if exists_path fs consistency_path
                     then length (glob fs consistency_path ''Realistic_'' ''.png'') else 0)
           in case styled_counts_of fs char_path of
                Inl e \<Rightarrow> None
              | Inr sc \<Rightarrow>
                  (let total = base_image_count fs base + rc + sum_list (map snd sc)
                   in if total > 0
                      then Some \<lparr> session_id = sid, character_id = cid, path = char_path,
                                  creation_date = st_ctime n, base_image_path = base,
                                  base_metadata = md, realistic_count = rc,
                                  styled_counts = sc, total_images = total,
                                  character_config = cfg, prompt = pr \<rparr>
                      else None)))"

subsection \<open>\_scan\_location\<close>

text \<open>Pattern 1, \<^verbatim>\<open>Session_*/Char_*\<close>. Nothing in this pass raises.\<close>

definition standard_chars :: "node \<Rightarrow> fpath \<Rightarrow> CharacterInfo list" where
  "standard_chars fs session_path =
     List.map_filter
       (\<lambda>char_path.
          if is_dir_path fs char_path
          then analyze_character_directory fs (path_name session_path) (path_name char_path) char_path
          else None)
       (glob fs session_path ''Char_'' [])"

definition standard_pass :: "node \<Rightarrow> fpath \<Rightarrow> CharacterInfo list" where
  "standard_pass fs location =
     concat (map (\<lambda>session_path.
                    if is_dir_path fs session_path then standard_chars fs session_path else [])
                 (glob fs location ''Session_'' []))"

text \<open>Pattern 2: any other directory holding a directory with a base image or metadata.\<close>

definition legacy_session :: "string \<Rightarrow> bool" where
  "legacy_session name =
     (\<not> startswith name ''Session_'' \<and> \<not> startswith name ''.'' \<and> name \<noteq> ''__pycache__'')"

definition legacy_chars :: "node \<Rightarrow> fpath \<Rightarrow> fpath list \<Rightarrow> CharacterInfo list" where
  "legacy_chars fs potential_session char_paths =
     List.map_filter
       (\<lambda>char_path.
          if is_dir_path fs char_path \<and>
             (glob fs char_path ''Base-'' ''.png'' \<noteq> [] \<or> glob fs char_path [] ''metadata.json'' \<noteq> [])
          then analyze_character_directory fs (path_name potential_session) (path_name char_path) char_path
          else None)
       char_paths"

fun legacy_sessions :: "node \<Rightarrow> fpath list \<Rightarrow> error + CharacterInfo list" where
  "legacy_sessions fs [] = Inr []"
| "legacy_sessions fs (potential_session # rest) =
     (if is_dir_path fs potential_session \<and> legacy_session (path_name potential_session)
      then (case iterdir fs potential_session of
              Inl e \<Rightarrow> Inl e
            | Inr char_paths \<Rightarrow>
                (case legacy_sessions fs rest of
                   Inl e \<Rightarrow> Inl e
                 | Inr cs \<Rightarrow> Inr (legacy_chars fs potential_session char_paths @ cs)))
      else legacy_sessions fs rest)"

definition legacy_pass :: "node \<Rightarrow> fpath \<Rightarrow> error + CharacterInfo list" where
  "legacy_pass fs location =
     (case iterdir fs location of Inl e \<Rightarrow> Inl e | Inr ds \<Rightarrow> legacy_sessions fs ds)"

text \<open>
  The \<^verbatim>\<open>try\<close> around both passes: an exception anywhere discards what was collected
  and returns the empty list.
\<close>

definition scan_location :: "node \<Rightarrow> fpath \<Rightarrow> CharacterInfo list" where
  "scan_location fs location =
     (case legacy_pass fs location of
        Inl e \<Rightarrow> []
      | Inr legacy \<Rightarrow> standard_pass fs location @ legacy)"

subsection \<open>discover\_characters\<close>

record manager =
  scan_locations :: "fpath list"
  characters_cache :: "CharacterInfo list option"
  last_scan_time :: "int option"

text \<open>The constructor scans the one resolved root directory.\<close>

definition init :: "fpath \<Rightarrow> manager" where
  "init root_directory =
     \<lparr> scan_locations = [root_directory], characters_cache = None, last_scan_time = None \<rparr>"

text \<open>
  \<^verbatim>\<open>timedelta.seconds\<close> of a difference of \<open>us\<close> microseconds. A \<^verbatim>\<open>timedelta\<close> is
  normalised to days, seconds in \<open>0..86399\<close> and microseconds in \<open>0..999999\<close>; the attribute
  is the middle one.
\<close>

definition timedelta_seconds :: "int \<Rightarrow> int" where
  "timedelta_seconds us = (us div 1000000) mod 86400"

definition char_key :: "CharacterInfo \<Rightarrow> string \<times> string" where
  "char_key c = (session_id c, character_id c)"

fun unique_characters :: "(string \<times> string) set \<Rightarrow> CharacterInfo list \<Rightarrow> CharacterInfo list" where
  "unique_characters seen [] = []"
| "unique_characters seen (c # cs) =
     (if char_key c \<notin> seen
      then c # unique_characters (insert (char_key c) seen) cs
      else unique_characters seen cs)"

text \<open>
  \<^verbatim>\<open>list.sort(key=..., reverse=True)\<close> is a stable sort into descending order of the key:
  equal keys keep their order. A stable sort has one result, here computed by insertion.
\<close>

definition sort_newest_first :: "CharacterInfo list \<Rightarrow> CharacterInfo list" where
  "sort_newest_first cs = sort_key (\<lambda>c. - creation_date c) cs"

definition collect_characters :: "node \<Rightarrow> fpath list \<Rightarrow> CharacterInfo list" where
  "collect_characters fs locations =
     concat (map (\<lambda>scan_location_path.
                    if exists_path fs scan_location_path
                    then scan_location fs scan_location_path else [])
                 locations)"

definition fresh_scan :: "node \<Rightarrow> fpath list \<Rightarrow> CharacterInfo list" where
  "fresh_scan fs locations =
     sort_newest_first (unique_characters {} (collect_characters fs locations))"

definition cache_usable :: "manager \<Rightarrow> int \<Rightarrow> bool \<Rightarrow> bool" where
  "cache_usable m current_time force_refresh =
     (\<not> force_refresh \<and> characters_cache m \<noteq> None \<and>
      (case last_scan_time m of
         None \<Rightarrow> False
       | Some t \<Rightarrow> timedelta_seconds (current_time - t) < 30))"

text \<open>The result and the manager after the call; \<open>current_time\<close> is \<^verbatim>\<open>datetime.now()\<close>.\<close>

definition discover_characters ::
    "manager \<Rightarrow> node \<Rightarrow> int \<Rightarrow> bool \<Rightarrow> CharacterInfo list \<times> manager" where
  "discover_characters m fs current_time force_refresh =
     (if cache_usable m current_time force_refresh
      then (the (characters_cache m), m)
      else (let characters = fresh_scan fs (scan_locations m)
            in (characters,
                m\<lparr> characters_cache := Some characters, last_scan_time := Some current_time \<rparr>)))"

text \<open>\<^verbatim>\<open>delete_character\<close> clears the cache and leaves the scan time.\<close>

definition clear_cache :: "manager \<Rightarrow> manager" where
  "clear_cache m = m\<lparr> characters_cache := None \<rparr>"

text \<open>The managers a program can hold: a new one, and one after any call.\<close>

inductive reachable :: "manager \<Rightarrow> bool" where
  r_init: "reachable (init root)"
| r_discover: "reachable m \<Longrightarrow> reachable (snd (discover_characters m fs t force))"
| r_clear: "reachable m \<Longrightarrow> reachable (clear_cache m)"

section \<open>zip\_utils.py\<close>

subsection \<open>Archive entries\<close>

text \<open>
  An archive is the list of its entry names in the order they are written; the same name
  can be written twice. \<^verbatim>\<open>ZipFile.write\<close> of a directory appends a slash to the name.
  The names given to it are built from single path components, which it stores as they
  are. \<^verbatim>\<open>ZipFile.writestr\<close> stores the name it is given.
\<close>

definition zip_write :: "node \<Rightarrow> fpath \<Rightarrow> string \<Rightarrow> string" where
  "zip_write fs p arcname = (if is_dir_path fs p then arcname @ ''/'' else arcname)"

text \<open>
  The four blocks that \<^verbatim>\<open>create_character_zip\<close> and \<^verbatim>\<open>create_batch_zip\<close> have in common;
  \<open>folder\<close> is the empty string in the first and \<^verbatim>\<open>char_folder\<close> with a slash in the second.
\<close>

definition base_image_entries :: "node \<Rightarrow> string \<Rightarrow> CharacterInfo \<Rightarrow> string list" where
  "base_image_entries fs folder char_info =
     (case base_image_path char_info of
        None \<Rightarrow> []
      | Some bp \<Rightarrow> if exists_path fs bp then [zip_write fs bp (folder @ path_name bp)] else [])"

definition base_metadata_entries :: "string \<Rightarrow> CharacterInfo \<Rightarrow> bool \<Rightarrow> string list" where
  "base_metadata_entries folder char_info include_metadata =
     (if include_metadata \<and> opt_truthy (base_metadata char_info)
      then [folder @ ''base_character_metadata.json''] else [])"

definition consistency_entries :: "node \<Rightarrow> string \<Rightarrow> CharacterInfo \<Rightarrow> bool \<Rightarrow> string list" where
  "consistency_entries fs folder char_info include_metadata =
     (let consistency_path = path char_info @ [''ConsistencyTests'']
      in if exists_path fs consistency_path
         then map (\<lambda>img_file. zip_write fs img_file (folder @ ''ConsistencyTests/'' @ path_name img_file))
                  (glob fs consistency_path [] ''.png'') @
              (if include_metadata
               then map (\<lambda>meta_file. zip_write fs meta_file (folder @ ''ConsistencyTests/'' @ path_name meta_file))
                        (glob fs consistency_path [] ''.json'')
               else [])
         else [])"

definition style_dir_entries :: "node \<Rightarrow> string \<Rightarrow> bool \<Rightarrow> fpath \<Rightarrow> string list" where
  "style_dir_entries fs folder include_metadata style_dir =
     (if is_dir_path fs style_dir
      then map (\<lambda>img_file. zip_write fs img_file
                    (folder @ ''Styles/'' @ path_name style_dir @ ''/'' @ path_name img_file))
               (glob fs style_dir [] ''.png'') @
           (if include_metadata
            then map (\<lambda>meta_file. zip_write fs meta_file
                         (folder @ ''Styles/'' @ path_name style_dir @ ''/'' @ path_name meta_file))
                     (glob fs style_dir [] ''.json'')
            else [])
      else [])"

definition styles_entries :: "node \<Rightarrow> string \<Rightarrow> CharacterInfo \<Rightarrow> bool \<Rightarrow> error + string list" where
  "styles_entries fs folder char_info include_metadata =
     (let styles_path = path char_info @ [''Styles'']
      in if exists_path fs styles_path
         then (case iterdir fs styles_path of
                 Inl e \<Rightarrow> Inl e
               | Inr style_dirs \<Rightarrow>
                   Inr (concat (map (style_dir_entries fs folder include_metadata) style_dirs)))
         else Inr [])"

subsection \<open>create\_character\_zip\<close>

text \<open>
  The entries written inside the \<^verbatim>\<open>with zipfile.ZipFile(...)\<close> block, or the exception
  that leaves it. The summary and the README are built from the record alone.
\<close>

definition character_zip_entries :: "node \<Rightarrow> CharacterInfo \<Rightarrow> bool \<Rightarrow> error + string list" where
  "character_zip_entries fs char_info include_metadata =
     (case styles_entries fs [] char_info include_metadata of
        Inl e \<Rightarrow> Inl e
      | Inr styled \<Rightarrow>
          Inr (base_image_entries fs [] char_info @
               base_metadata_entries [] char_info include_metadata @
               consistency_entries fs [] char_info include_metadata @
               styled @
               (if include_metadata then [''character_summary.json'', ''README.txt''] else [])))"

text \<open>
  The messages, by kind: the texts carry a time stamp and the size of the archive in
  megabytes, or \<^verbatim>\<open>str(e)\<close>, which nothing here depends on.
\<close>

datatype message =
    ZipCreated string
  | BatchZipCreated nat
  | NoCharactersSelected
  | ErrorCreatingZip error
  | ErrorCreatingBatchZip error

text \<open>
  \<open>temp_zip_path\<close> is the name \<^verbatim>\<open>tempfile.NamedTemporaryFile\<close> hands out. On success the
  file of that name is the archive with the entries above.
\<close>

definition create_character_zip ::
    "node \<Rightarrow> string \<Rightarrow> CharacterInfo \<Rightarrow> bool \<Rightarrow> bool \<times> message \<times> string option" where
  "create_character_zip fs temp_zip_path char_info include_metadata =
     (case character_zip_entries fs char_info include_metadata of
        Inl e \<Rightarrow> (False, ErrorCreatingZip e, None)
      | Inr entries \<Rightarrow> (True, ZipCreated (character_id char_info), Some temp_zip_path))"

subsection \<open>create\_batch\_zip\<close>

definition char_folder :: "CharacterInfo \<Rightarrow> string" where
  "char_folder char_info = session_id char_info @ ''_'' @ character_id char_info"

definition batch_character_entries :: "node \<Rightarrow> CharacterInfo \<Rightarrow> bool \<Rightarrow> error + string list" where
  "batch_character_entries fs char_info include_metadata =
     (let folder = char_folder char_info @ ''/''
      in case styles_entries fs folder char_info include_metadata of
           Inl e \<Rightarrow> Inl e
         | Inr styled \<Rightarrow>
             Inr (base_image_entries fs folder char_info @
                  base_metadata_entries folder char_info include_metadata @
                  consistency_entries fs folder char_info include_metadata @
                  styled @
                  (if include_metadata then [folder @ ''character_summary.json''] else [])))"

fun batch_entries :: "node \<Rightarrow> CharacterInfo list \<Rightarrow> bool \<Rightarrow> error + string list" where
  "batch_entries fs [] include_metadata = Inr []"
| "batch_entries fs (char_info # characters) include_metadata =
     (case batch_character_entries fs char_info include_metadata of
        Inl e \<Rightarrow> Inl e
      | Inr entries \<Rightarrow>
          (case batch_entries fs characters include_metadata of
             Inl e \<Rightarrow> Inl e
           | Inr rest \<Rightarrow> Inr (entries @ rest)))"

definition batch_zip_entries :: "node \<Rightarrow> CharacterInfo list \<Rightarrow> bool \<Rightarrow> error + string list" where
  "batch_zip_entries fs characters include_metadata =
     (case batch_entries fs characters include_metadata of
        Inl e \<Rightarrow> Inl e
      | Inr entries \<Rightarrow>
          Inr (entries @ (if include_metadata then [''batch_summary.json'', ''README.txt''] else [])))"

definition create_batch_zip ::
    "node \<Rightarrow> string \<Rightarrow> CharacterInfo list \<Rightarrow> bool \<Rightarrow> bool \<times> message \<times> string option" where
  "create_batch_zip fs temp_zip_path characters include_metadata =
     (if characters = [] then (False, NoCharactersSelected, None)
      else (case batch_zip_entries fs characters include_metadata of
              Inl e \<Rightarrow> (False, ErrorCreatingBatchZip e, None)
            | Inr entries \<Rightarrow> (True, BatchZipCreated (length characters), Some temp_zip_path)))"

subsection \<open>get\_estimated\_zip\_size\<close>

text \<open>
  Python floats are IEEE 754 doubles, 53 significant bits, rounded to nearest with ties to
  even. The values here are not negative, so a double is kept as the natural number it
  is a multiple of: \<open>round53 n\<close> is the double nearest to the integer \<open>n\<close>.
\<close>

definition round_half_even :: "nat \<Rightarrow> nat \<Rightarrow> nat" where
  "round_half_even n d =
     (let q = n div d; r = n mod d
      in if 2 * r < d then q
         else if d < 2 * r then q + 1
         else if even q then q else q + 1)"

fun bit_length :: "nat \<Rightarrow> nat" where
  "bit_length n = (if n = 0 then 0 else Suc (bit_length (n div 2)))"

declare bit_length.simps [simp del]

definition round53 :: "nat \<Rightarrow> nat" where
  "round53 n = (let k = bit_length n - 53 in round_half_even n (2 ^ k) * 2 ^ k)"

text \<open>
  The double written \<^verbatim>\<open>0.7\<close> is \<open>6305039478318694 / 2 ^ 53\<close>. \<^verbatim>\<open>total_size * 0.7\<close> converts
  the integer to a double, which raises \<^verbatim>\<open>OverflowError\<close> from \<open>2 ^ 1024\<close> on, and rounds
  the product; \<^verbatim>\<open>int\<close> drops the fraction.
\<close>

definition mantissa_07 :: nat where
  "mantissa_07 = 6305039478318694"

definition int_times_07 :: "nat \<Rightarrow> error + nat" where
  "int_times_07 total_size =
     (if 2 ^ 1024 \<le> round53 total_size then Inl OverflowError
      else Inr (round53 (round53 total_size * mantissa_07) div 2 ^ 53))"

text \<open>
  \<^verbatim>\<open>f"{n / 2 ** s:.1f}"\<close>: the quotient is the double nearest to \<open>n\<close>, scaled; the format
  rounds its exact value to one decimal, ties to even.
\<close>

fun show_nat :: "nat \<Rightarrow> string" where
  "show_nat n =
     (if n < 10 then [''0123456789'' ! n]
      else show_nat (n div 10) @ [''0123456789'' ! (n mod 10)])"

declare show_nat.simps [simp del]

definition format_1f :: "nat \<Rightarrow> nat \<Rightarrow> string" where
  "format_1f n s =
     (let tenths = round_half_even (10 * round53 n) (2 ^ s)
      in show_nat (tenths div 10) @ ''.'' @ show_nat (tenths mod 10))"

definition size_str :: "nat \<Rightarrow> string" where
  "size_str estimated_zip_size =
     (if 1024 * 1024 * 1024 < estimated_zip_size then format_1f estimated_zip_size 30 @ '' GB''
      else if 1024 * 1024 < estimated_zip_size then format_1f estimated_zip_size 20 @ '' MB''
      else format_1f estimated_zip_size 10 @ '' KB'')"

definition style_dir_size :: "node \<Rightarrow> fpath \<Rightarrow> nat" where
  "style_dir_size fs style_dir =
     (if is_dir_path fs style_dir
      then sum_list (map (stat_size fs) (glob fs style_dir [] ''.png'')) else 0)"

text \<open>What one pass of the loop over the characters adds to \<^verbatim>\<open>total_size\<close>.\<close>

definition character_size :: "node \<Rightarrow> CharacterInfo \<Rightarrow> error + nat" where
  "character_size fs char =
     (let base = (case base_image_path char of
                    None \<Rightarrow> 0
                  | Some bp \<Rightarrow> if exists_path fs bp then stat_size fs bp else 0);
          consistency_path = path char @ [''ConsistencyTests''];
          consistency = (if exists_path fs consistency_path
                         then sum_list (map (stat_size fs) (glob fs consistency_path [] ''.png''))
                         else 0);
          styles_path = path char @ [''Styles'']
      in if exists_path fs styles_path
         then (case iterdir fs styles_path of
                 Inl e \<Rightarrow> Inl e
               | Inr style_dirs \<Rightarrow>
                   Inr (base + consistency + sum_list (map (style_dir_size fs) style_dirs)))
         else Inr (base + consistency))"

fun total_size_loop :: "node \<Rightarrow> CharacterInfo list \<Rightarrow> nat \<Rightarrow> error + nat" where
  "total_size_loop fs [] total_size = Inr total_size"
| "total_size_loop fs (char # characters) total_size =
     (case character_size fs char of
        Inl e \<Rightarrow> Inl e
      | Inr n \<Rightarrow> total_size_loop fs characters (total_size + n))"

definition get_estimated_zip_size :: "node \<Rightarrow> CharacterInfo list \<Rightarrow> nat \<times> string" where
  "get_estimated_zip_size fs characters =
     (case total_size_loop fs characters 0 of
        Inl e \<Rightarrow> (0, ''Unknown'')
      | Inr total_size \<Rightarrow>
          (case int_times_07 total_size of
             Inl e \<Rightarrow> (0, ''Unknown'')
           | Inr estimated_zip_size \<Rightarrow> (estimated_zip_size, size_str estimated_zip_size)))"

section \<open>Specification predicates and example data\<close>

text \<open>The derived count of a record, as the data model states it.\<close>

definition images_counted :: "CharacterInfo \<Rightarrow> bool" where
  "images_counted c =
     (total_images c =
        (case base_image_path c of None \<Rightarrow> 0 | Some bp \<Rightarrow> 1) + realistic_count c +
        sum_list (map snd (styled_counts c)) \<and>
      0 < total_images c)"

text \<open>A small tree: one standard session with a character of three images and an empty one.\<close>

definition example_char :: node where
  "example_char = Dir 4096 100
     [(''Base-Character.png'', File 90 1 None),
      (''ConsistencyTests'', Dir 4096 2 [(''Realistic_001.png'', File 10 3 None)]),
      (''Styles'', Dir 4096 2 [(''ghibli'', Dir 4096 4 [(''ghibli_001.png'', File 7 5 None)])])]"

definition example_tree :: node where
  "example_tree = Dir 4096 0
     [(''Session_1'', Dir 4096 10 [(''Char_A'', example_char), (''Char_B'', Dir 4096 50 [])])]"

definition example_record :: CharacterInfo where
  "example_record =
     \<lparr> session_id = ''Session_1'', character_id = ''Char_A'', path = [''Session_1'', ''Char_A''],
       creation_date = 100,
       base_image_path = Some [''Session_1'', ''Char_A'', ''Base-Character.png''],
       base_metadata = None, realistic_count = 1, styled_counts = [(''ghibli'', 1)],
       total_images = 3, character_config = None, prompt = None \<rparr>"

text \<open>Variants of the record with other dates, and a tree with every character removed.\<close>

definition older_record :: CharacterInfo where
  "older_record = example_record \<lparr> creation_date := 50 \<rparr>"

definition legacy_twin :: CharacterInfo where
  "legacy_twin = example_record \<lparr> creation_date := 70, total_images := 1 \<rparr>"

definition empty_tree :: node where
  "empty_tree = Dir 4096 0 []"

definition base_only_tree :: node where
  "base_only_tree = Dir 4096 0
     [(''Session_1'', Dir 4096 10
        [(''Char_A'', Dir 4096 100 [(''Base-Character.png'', File 90 1 None)])])]"

definition base_only_record :: CharacterInfo where
  "base_only_record =
     \<lparr> session_id = ''Session_1'', character_id = ''Char_A'', path = [''Session_1'', ''Char_A''],
       creation_date = 100,
       base_image_path = Some [''Session_1'', ''Char_A'', ''Base-Character.png''],
       base_metadata = None, realistic_count = 0, styled_counts = [],
       total_images = 1, character_config = None, prompt = None \<rparr>"

definition broken_tree :: node where
  "broken_tree = Dir 4096 0
     [(''Session_1'', Dir 4096 10
        [(''Char_A'', Dir 4096 100
           [(''Base-Character.png'', File 90 1 None), (''Styles'', File 3 1 None)])])]"

definition mixed_tree :: node where
  "mixed_tree = Dir 4096 0
     [(''Session_1'', Dir 4096 10
        [(''Char_A'', Dir 4096 100
           [(''ConsistencyTests'', Dir 4096 2
               [(''Realistic_001.png'', File 10 3 None), (''sketch.png'', File 11 3 None)])])])]"

definition mixed_record :: CharacterInfo where
  "mixed_record =
     \<lparr> session_id = ''Session_1'', character_id = ''Char_A'', path = [''Session_1'', ''Char_A''],
       creation_date = 100, base_image_path = None,
       base_metadata = None, realistic_count = 1, styled_counts = [],
       total_images = 1, character_config = None, prompt = None \<rparr>"



definition styles_listable :: "node \<Rightarrow> CharacterInfo \<Rightarrow> bool" where
  "styles_listable fs c =
     (\<not> exists_path fs (path c @ [''Styles'']) \<or> is_dir_path fs (path c @ [''Styles'']))"

text \<open>
  The sum the specification describes, in closed form: the existing base image, every
  \<^verbatim>\<open>*.png\<close> entry of \<^verbatim>\<open>ConsistencyTests\<close> and every \<^verbatim>\<open>*.png\<close> entry of each subdirectory of
  \<^verbatim>\<open>Styles\<close>; and seven tenths of it, rounded down.
\<close>

definition listing :: "node \<Rightarrow> fpath \<Rightarrow> fpath list" where
  "listing fs p = (case iterdir fs p of Inl e \<Rightarrow> [] | Inr ds \<Rightarrow> ds)"

definition image_bytes :: "node \<Rightarrow> CharacterInfo \<Rightarrow> nat" where
  "image_bytes fs c =
     (case base_image_path c of
        None \<Rightarrow> 0
      | Some bp \<Rightarrow> if exists_path fs bp then stat_size fs bp else 0) +
     sum_list (map (stat_size fs) (glob fs (path c @ [''ConsistencyTests'']) [] ''.png'')) +
     sum_list (map (stat_size fs)
       (concat (map (\<lambda>d. glob fs d [] ''.png'')
          (filter (is_dir_path fs) (listing fs (path c @ [''Styles'']))))))"

definition total_image_bytes :: "node \<Rightarrow> CharacterInfo list \<Rightarrow> nat" where
  "total_image_bytes fs cs = sum_list (map (image_bytes fs) cs)"

definition floor_estimate :: "node \<Rightarrow> CharacterInfo list \<Rightarrow> nat" where
  "floor_estimate fs cs = 7 * total_image_bytes fs cs div 10"

section \<open>Properties of discovery\<close>

subsection \<open>What a scan collects\<close>

lemma find_base_image_exists:
  "find_base_image fs p = Some bp \<Longrightarrow> exists_path fs bp"
  by (auto simp: find_base_image_def find_Some_iff)

lemma base_image_count_found:
  "base_image_count fs (find_base_image fs p) = (case find_base_image fs p of None \<Rightarrow> 0 | Some bp \<Rightarrow> 1)"
  by (auto simp: base_image_count_def dest: find_base_image_exists split: option.splits)

lemma analyze_Some:
  assumes "analyze_character_directory fs sid cid p = Some c"
  shows "session_id c = sid" and "character_id c = cid" and "images_counted c"
  using assms
  by (auto simp: analyze_character_directory_def Let_def images_counted_def base_image_count_found
           split: option.splits prod.splits sum.splits if_splits)

lemma map_filter_set: "c \<in> set (List.map_filter f xs) \<longleftrightarrow> (\<exists>x \<in> set xs. f x = Some c)"
  by (induction xs) (auto simp: map_filter_simps split: option.splits)

lemma path_name_snoc [simp]: "path_name (p @ [n]) = n"
  by (simp add: path_name_def)

lemma glob_member:
  "q \<in> set (glob fs p pre suf) \<Longrightarrow> \<exists>n. q = p @ [n] \<and> fnmatch pre suf n"
  by (auto simp: glob_def split: option.splits node.splits)

lemma iterdir_member:
  "iterdir fs p = Inr ds \<Longrightarrow> q \<in> set ds \<Longrightarrow> \<exists>n. q = p @ [n]"
  by (auto simp: iterdir_def split: option.splits node.splits)

lemma fnmatch_startswith: "fnmatch pre [] n \<Longrightarrow> startswith n pre"
  by (simp add: fnmatch_def startswith_def)

lemma standard_chars_member:
  assumes "c \<in> set (standard_chars fs sp)"
  shows "session_id c = path_name sp \<and> images_counted c"
  using assms
  by (auto simp: standard_chars_def map_filter_set split: if_splits dest: analyze_Some)

lemma standard_pass_member:
  assumes "c \<in> set (standard_pass fs loc)"
  shows "startswith (session_id c) ''Session_'' \<and> images_counted c"
proof -
  from assms obtain sp where sp: "sp \<in> set (glob fs loc ''Session_'' [])"
    and c: "c \<in> set (standard_chars fs sp)"
    by (auto simp: standard_pass_def split: if_splits)
  from sp obtain n where "sp = loc @ [n]" "fnmatch ''Session_'' [] n"
    by (blast dest: glob_member)
  with standard_chars_member [OF c] show ?thesis
    by (simp add: fnmatch_startswith)
qed

lemma legacy_chars_member:
  assumes "c \<in> set (legacy_chars fs sp cps)"
  shows "session_id c = path_name sp \<and> images_counted c"
  using assms
  by (auto simp: legacy_chars_def map_filter_set split: if_splits dest: analyze_Some)

lemma legacy_sessions_member:
  "legacy_sessions fs ds = Inr cs \<Longrightarrow> c \<in> set cs \<Longrightarrow>
     \<not> startswith (session_id c) ''Session_'' \<and> images_counted c"
proof (induction ds arbitrary: cs)
  case Nil
  then show ?case by simp
next
  case (Cons d ds)
  show ?case
  proof (cases "is_dir_path fs d \<and> legacy_session (path_name d)")
    case False
    with Cons show ?thesis by auto
  next
    case True
    with Cons.prems(1) obtain cps cs' where
      cs': "legacy_sessions fs ds = Inr cs'" and cs: "cs = legacy_chars fs d cps @ cs'"
      by (auto split: sum.splits)
    from Cons.prems(2) cs consider "c \<in> set (legacy_chars fs d cps)" | "c \<in> set cs'"
      by auto
    then show ?thesis
    proof cases
      case 1
      with True legacy_chars_member [OF 1] show ?thesis
        by (simp add: legacy_session_def)
    next
      case 2
      with Cons.IH [OF cs'] show ?thesis by simp
    qed
  qed
qed

lemma legacy_pass_member:
  "legacy_pass fs loc = Inr cs \<Longrightarrow> c \<in> set cs \<Longrightarrow>
     \<not> startswith (session_id c) ''Session_'' \<and> images_counted c"
  by (auto simp: legacy_pass_def split: sum.splits dest: legacy_sessions_member)

lemma scan_location_member:
  assumes "c \<in> set (scan_location fs loc)"
  shows "images_counted c"
    and "startswith (session_id c) ''Session_'' \<longleftrightarrow> c \<in> set (standard_pass fs loc)"
proof -
  from assms obtain legacy where leg: "legacy_pass fs loc = Inr legacy"
    and c: "c \<in> set (standard_pass fs loc) \<or> c \<in> set legacy"
    by (cases "legacy_pass fs loc") (auto simp: scan_location_def)
  from c show "images_counted c"
    using legacy_pass_member [OF leg] standard_pass_member by blast
  from c show "startswith (session_id c) ''Session_'' \<longleftrightarrow> c \<in> set (standard_pass fs loc)"
    using legacy_pass_member [OF leg] standard_pass_member by blast
qed

lemma collect_member:
  "c \<in> set (collect_characters fs locs) \<longleftrightarrow>
     (\<exists>loc \<in> set locs. exists_path fs loc \<and> c \<in> set (scan_location fs loc))"
  by (auto simp: collect_characters_def split: if_splits)

subsection \<open>Removing duplicates\<close>

lemma unique_subset: "set (unique_characters seen cs) \<subseteq> set cs"
  by (induction cs arbitrary: seen) auto

lemma unique_keys:
  "char_key ` set (unique_characters seen cs) = char_key ` set cs - seen"
  by (induction cs arbitrary: seen) auto

lemma unique_distinct: "distinct (map char_key (unique_characters seen cs))"
proof (induction cs arbitrary: seen)
  case Nil
  then show ?case by simp
next
  case (Cons c cs)
  have "char_key c \<notin> char_key ` set (unique_characters (insert (char_key c) seen) cs)"
    by (simp add: unique_keys)
  with Cons show ?case by simp
qed

lemma unique_first_seen:
  "c \<in> set (unique_characters seen cs) \<Longrightarrow>
     find (\<lambda>d. char_key d = char_key c) cs = Some c"
proof (induction cs arbitrary: seen)
  case Nil
  then show ?case by simp
next
  case (Cons a cs)
  show ?case
  proof (cases "char_key a \<in> seen")
    case True
    with Cons.prems have in_rest: "c \<in> set (unique_characters seen cs)" by simp
    then have "char_key c \<in> char_key ` set (unique_characters seen cs)" by blast
    then have "char_key c \<notin> seen" by (simp add: unique_keys)
    with True have "char_key a \<noteq> char_key c" by auto
    with Cons.IH [OF in_rest] show ?thesis by simp
  next
    case False
    with Cons.prems consider "c = a" | "c \<in> set (unique_characters (insert (char_key a) seen) cs)"
      by auto
    then show ?thesis
    proof cases
      case 1
      then show ?thesis by simp
    next
      case 2
      then have "char_key c \<in> char_key ` set (unique_characters (insert (char_key a) seen) cs)"
        by blast
      then have "char_key a \<noteq> char_key c" by (auto simp: unique_keys)
      with Cons.IH [OF 2] show ?thesis by simp
    qed
  qed
qed

lemma find_append_first:
  "k \<in> f ` set xs \<Longrightarrow> find (\<lambda>d. f d = k) (xs @ ys) = find (\<lambda>d. f d = k) xs"
  by (induction xs) auto

subsection \<open>Sorting\<close>

lemma set_sort_newest [simp]: "set (sort_newest_first cs) = set cs"
  by (simp add: sort_newest_first_def)

lemma distinct_keys_sort:
  "distinct (map f (sort_newest_first cs)) = distinct (map f cs)"
proof -
  have "mset (map f (sort_newest_first cs)) = mset (map f cs)"
    by (simp add: sort_newest_first_def)
  then show ?thesis by (rule mset_eq_imp_distinct_iff)
qed

lemma sorted_newest:
  "sorted_wrt (\<lambda>a b. creation_date b \<le> creation_date a) (sort_newest_first cs)"
proof -
  have "sorted (map (\<lambda>c. - creation_date c) (sort_newest_first cs))"
    by (simp add: sort_newest_first_def)
  then show ?thesis
    by (simp add: sorted_map sorted_wrt_iff_nth_less)
qed

lemma stable_newest:
  "filter (\<lambda>c. creation_date c = t) (sort_newest_first cs) = filter (\<lambda>c. creation_date c = t) cs"
proof -
  have "filter (\<lambda>c. - creation_date c = - t) (sort_key (\<lambda>c. - creation_date c) cs)
        = filter (\<lambda>c. - creation_date c = - t) cs"
    by (rule sort_key_stable)
  then show ?thesis by (simp add: sort_newest_first_def)
qed

lemma sort_three:
  assumes "mset cs = {#a, b, c#}" "creation_date b < creation_date a" "creation_date c < creation_date b"
  shows "sort_newest_first cs = [a, b, c]"
  unfolding sort_newest_first_def
proof (rule properties_for_sort_key)
  show "mset [a, b, c] = mset cs" using assms(1) by simp
  show "sorted (map (\<lambda>c. - creation_date c) [a, b, c])" using assms by simp
  show "\<And>k. k \<in> set [a, b, c] \<Longrightarrow>
      filter (\<lambda>x. - creation_date k = - creation_date x) [a, b, c] =
      filter (\<lambda>x. - creation_date k = - creation_date x) cs"
  proof -
    fix k assume k: "k \<in> set [a, b, c]"
    have m: "mset (filter (\<lambda>x. - creation_date k = - creation_date x) cs) =
          filter_mset (\<lambda>x. - creation_date k = - creation_date x) {#a, b, c#}"
      using assms(1) by (metis mset_filter)
    from k assms(2,3) have "\<exists>y. filter_mset (\<lambda>x. - creation_date k = - creation_date x) {#a, b, c#} = {#y#}
        \<and> filter (\<lambda>x. - creation_date k = - creation_date x) [a, b, c] = [y]"
      by auto
    then obtain y where y: "mset (filter (\<lambda>x. - creation_date k = - creation_date x) cs) = {#y#}"
        "filter (\<lambda>x. - creation_date k = - creation_date x) [a, b, c] = [y]"
      using m by auto
    from y(1) have "filter (\<lambda>x. - creation_date k = - creation_date x) cs = [y]"
      by (metis mset_single_iff_right)
    with y(2) show "filter (\<lambda>x. - creation_date k = - creation_date x) [a, b, c] =
      filter (\<lambda>x. - creation_date k = - creation_date x) cs" by simp
  qed
qed

subsection \<open>The cache holds scans\<close>

lemmas discovery_eval =
  fresh_scan_def collect_characters_def exists_path_def scan_location_def legacy_pass_def
  iterdir_def standard_pass_def glob_def fnmatch_def is_dir_path_def standard_chars_def
  map_filter_simps analyze_character_directory_def find_base_image_def base_image_candidates_def
  load_base_metadata_def json_load_def py_value_def styled_counts_of_def base_image_count_def
  path_name_def legacy_session_def startswith_def legacy_chars_def sort_newest_first_def
  char_key_def

lemma example_scan: "fresh_scan example_tree [[]] = [example_record]"
  by (simp add: discovery_eval example_tree_def example_char_def example_record_def)

lemma reachable_cache:
  "reachable m \<Longrightarrow> characters_cache m = Some cs \<Longrightarrow> \<exists>fs'. cs = fresh_scan fs' (scan_locations m)"
proof (induction arbitrary: cs rule: reachable.induct)
  case (r_init root)
  then show ?case by (simp add: init_def)
next
  case (r_discover m fs t force)
  then show ?case
    by (auto simp: discover_characters_def Let_def split: if_splits)
next
  case (r_clear m)
  then show ?case by (simp add: clear_cache_def)
qed

lemma discover_is_scan:
  assumes "reachable m"
  shows "\<exists>fs'. fst (discover_characters m fs t force) = fresh_scan fs' (scan_locations m)"
proof (cases "cache_usable m t force")
  case True
  then obtain cs where "characters_cache m = Some cs"
    by (auto simp: cache_usable_def)
  with reachable_cache [OF assms] True show ?thesis
    by (auto simp: discover_characters_def)
next
  case False
  then show ?thesis
    by (auto simp: discover_characters_def Let_def)
qed

lemma fresh_scan_member:
  "c \<in> set (fresh_scan fs locs) \<Longrightarrow> c \<in> set (collect_characters fs locs)"
  using unique_subset by (auto simp: fresh_scan_def)

lemma fresh_scan_counted:
  "c \<in> set (fresh_scan fs locs) \<Longrightarrow> images_counted c"
  by (auto dest!: fresh_scan_member simp: collect_member dest: scan_location_member(1))

text \<open>
  Claim C1. Every record that \<^verbatim>\<open>discover_characters\<close> returns, from a scan or from the
  cache, has \<open>total_images\<close> equal to one for a base image plus \<open>realistic_count\<close>
  plus the sum of the values of \<open>styled_counts\<close>, and no returned record has
  \<open>total_images = 0\<close>.
\<close>

theorem discovered_total_images:
  "reachable m \<Longrightarrow> c \<in> set (fst (discover_characters m fs t force)) \<Longrightarrow>
     total_images c =
       (case base_image_path c of None \<Rightarrow> 0 | Some bp \<Rightarrow> 1) + realistic_count c +
       sum_list (map snd (styled_counts c)) \<and>
     total_images c \<noteq> 0"
proof -
  assume r: "reachable m" and c: "c \<in> set (fst (discover_characters m fs t force))"
  from discover_is_scan [OF r] obtain fs' where
    "fst (discover_characters m fs t force) = fresh_scan fs' (scan_locations m)" by blast
  with c have "images_counted c" by (simp add: fresh_scan_counted)
  then have a: "total_images c =
       (case base_image_path c of None \<Rightarrow> 0 | Some bp \<Rightarrow> 1) + realistic_count c +
       sum_list (map snd (styled_counts c))" and b: "0 < total_images c"
    unfolding images_counted_def by blast+
  from b have "total_images c \<noteq> 0" by (rule gr_implies_not0)
  with a show ?thesis by (rule conjI)
qed

theorem discovered_total_images_witness:
  "reachable (init []) \<and>
   example_record \<in> set (fst (discover_characters (init []) example_tree 0 False)) \<and>
   total_images example_record = 1 + 1 + 1 \<and>
   fst (discover_characters (init []) example_tree 0 False) = [example_record]"
proof -
  have r: "reachable (init [])" by (rule r_init)
  have d: "fst (discover_characters (init []) example_tree 0 False) = [example_record]"
    by (simp add: discover_characters_def cache_usable_def init_def example_scan Let_def)
  then have c: "example_record \<in> set (fst (discover_characters (init []) example_tree 0 False))"
    by simp
  from discovered_total_images [OF r c] r c d show ?thesis
    by (simp add: example_record_def)
qed

subsection \<open>Claims on the discovery result\<close>

text \<open>
  Claim C2. The list \<^verbatim>\<open>discover_characters\<close> returns holds at most one record for a pair
  (\<open>session_id\<close>, \<open>character_id\<close>); every pair a scan collects is in the result, with
  the record seen first for it, unchanged; where a record of the result has a pair that a
  Standard pass found, the record itself comes from a Standard pass; and when the records
  of a Standard pass are followed by those of a Legacy pass, a pair found by both keeps the
  first Standard record.
\<close>

theorem discovery_keeps_first_seen:
  "(reachable m \<longrightarrow> distinct (map char_key (fst (discover_characters m fs t force)))) \<and>
   char_key ` set (fresh_scan fs locs) = char_key ` set (collect_characters fs locs) \<and>
   (c \<in> set (fresh_scan fs locs) \<longrightarrow>
      find (\<lambda>d. char_key d = char_key c) (collect_characters fs locs) = Some c \<and>
      (loc \<in> set locs \<and> char_key c \<in> char_key ` set (standard_pass fs loc) \<longrightarrow>
         (\<exists>loc' \<in> set locs. c \<in> set (standard_pass fs loc')))) \<and>
   (d \<in> set (unique_characters {} (std @ legacy)) \<and> char_key d \<in> char_key ` set std \<longrightarrow>
      find (\<lambda>e. char_key e = char_key d) std = Some d)"
proof (intro conjI impI)
  assume r: "reachable m"
  from discover_is_scan [OF r] obtain fs' where
    "fst (discover_characters m fs t force) = fresh_scan fs' (scan_locations m)" by blast
  then show "distinct (map char_key (fst (discover_characters m fs t force)))"
    by (simp add: fresh_scan_def distinct_keys_sort unique_distinct)
next
  show "char_key ` set (fresh_scan fs locs) = char_key ` set (collect_characters fs locs)"
    by (simp add: fresh_scan_def unique_keys)
next
  assume "c \<in> set (fresh_scan fs locs)"
  then show "find (\<lambda>d. char_key d = char_key c) (collect_characters fs locs) = Some c"
    by (simp add: fresh_scan_def unique_first_seen)
next
  assume c: "c \<in> set (fresh_scan fs locs)"
    and k: "loc \<in> set locs \<and> char_key c \<in> char_key ` set (standard_pass fs loc)"
  from k obtain s where s: "s \<in> set (standard_pass fs loc)" and "char_key s = char_key c"
    by auto
  then have "session_id c = session_id s" by (simp add: char_key_def)
  with standard_pass_member [OF s] have sw: "startswith (session_id c) ''Session_''" by simp
  from fresh_scan_member [OF c] obtain loc' where
    loc': "loc' \<in> set locs" and m: "c \<in> set (scan_location fs loc')"
    by (auto simp: collect_member)
  from scan_location_member(2) [OF m] sw have "c \<in> set (standard_pass fs loc')" by simp
  with loc' show "\<exists>loc' \<in> set locs. c \<in> set (standard_pass fs loc')" by blast
next
  assume a: "d \<in> set (unique_characters {} (std @ legacy)) \<and> char_key d \<in> char_key ` set std"
  then have "find (\<lambda>e. char_key e = char_key d) (std @ legacy) = Some d"
    by (blast intro: unique_first_seen)
  with a show "find (\<lambda>e. char_key e = char_key d) std = Some d"
    by (simp add: find_append_first)
qed

theorem discovery_keeps_first_seen_witness:
  "reachable (init []) \<and>
   distinct (map char_key (fst (discover_characters (init []) example_tree 0 False))) \<and>
   example_record \<in> set (fresh_scan example_tree [[]]) \<and>
   [] \<in> set [[]::string list] \<and>
   char_key example_record \<in> char_key ` set (standard_pass example_tree []) \<and>
   (\<exists>loc' \<in> set [[]]. example_record \<in> set (standard_pass example_tree loc')) \<and>
   example_record \<in> set (unique_characters {} ([example_record] @ [legacy_twin])) \<and>
   char_key example_record \<in> char_key ` set [example_record] \<and>
   legacy_twin \<noteq> example_record \<and>
   unique_characters {} ([example_record] @ [legacy_twin]) = [example_record] \<and>
   find (\<lambda>e. char_key e = char_key example_record) [example_record] = Some example_record"
proof -
  note T = discovery_keeps_first_seen [of "init []" example_tree 0 False "[[]]" example_record "[]"
      example_record "[example_record]" "[legacy_twin]"]
  have r: "reachable (init [])" by (rule r_init)
  have s: "standard_pass example_tree [] = [example_record]"
    by (simp add: discovery_eval example_tree_def example_char_def example_record_def)
  have c: "example_record \<in> set (fresh_scan example_tree [[]])"
    by (simp add: example_scan)
  have l: "[] \<in> set [[]::string list]" by simp
  have k: "char_key example_record \<in> char_key ` set (standard_pass example_tree [])"
    by (simp add: s)
  have u: "unique_characters {} ([example_record] @ [legacy_twin]) = [example_record]"
    by (simp add: legacy_twin_def char_key_def)
  then have u': "example_record \<in> set (unique_characters {} ([example_record] @ [legacy_twin]))"
    by simp
  have k': "char_key example_record \<in> char_key ` set [example_record]" by simp
  have n: "legacy_twin \<noteq> example_record"
    by (simp add: legacy_twin_def example_record_def)
  from T r have d: "distinct (map char_key (fst (discover_characters (init []) example_tree 0 False)))"
    by blast
  from T c l k have e: "\<exists>loc' \<in> set [[]]. example_record \<in> set (standard_pass example_tree loc')"
    by blast
  from T u' k' have f: "find (\<lambda>e. char_key e = char_key example_record) [example_record] = Some example_record"
    by blast
  show ?thesis
    by (intro conjI) (fact r d c l k e u' k' n u f)+
qed

text \<open>
  Claim C8. The returned list is ordered by creation date, newest first; records with the
  same date keep the order in which discovery found them; three records with dates
  \<open>T1 > T2 > T3\<close> come out in that order whatever order they went in.
\<close>

theorem discovery_newest_first:
  "(reachable m \<longrightarrow>
      sorted_wrt (\<lambda>a b. creation_date b \<le> creation_date a)
        (fst (discover_characters m fs t force))) \<and>
   filter (\<lambda>c. creation_date c = ts) (fresh_scan fs locs) =
     filter (\<lambda>c. creation_date c = ts) (unique_characters {} (collect_characters fs locs)) \<and>
   (mset cs = {#c1, c2, c3#} \<and> creation_date c2 < creation_date c1 \<and>
    creation_date c3 < creation_date c2 \<longrightarrow> sort_newest_first cs = [c1, c2, c3])"
proof (intro conjI impI)
  assume r: "reachable m"
  from discover_is_scan [OF r] obtain fs' where
    "fst (discover_characters m fs t force) = fresh_scan fs' (scan_locations m)" by blast
  then show "sorted_wrt (\<lambda>a b. creation_date b \<le> creation_date a)
        (fst (discover_characters m fs t force))"
    by (simp add: fresh_scan_def sorted_newest)
next
  show "filter (\<lambda>c. creation_date c = ts) (fresh_scan fs locs) =
     filter (\<lambda>c. creation_date c = ts) (unique_characters {} (collect_characters fs locs))"
    by (simp add: fresh_scan_def stable_newest)
next
  assume "mset cs = {#c1, c2, c3#} \<and> creation_date c2 < creation_date c1 \<and>
    creation_date c3 < creation_date c2"
  then show "sort_newest_first cs = [c1, c2, c3]"
    by (simp add: sort_three)
qed

theorem discovery_newest_first_witness:
  "reachable (init []) \<and>
   sorted_wrt (\<lambda>a b. creation_date b \<le> creation_date a)
     (fst (discover_characters (init []) example_tree 0 False)) \<and>
   mset [older_record, example_record, legacy_twin] = {#example_record, legacy_twin, older_record#} \<and>
   creation_date legacy_twin < creation_date example_record \<and>
   creation_date older_record < creation_date legacy_twin \<and>
   sort_newest_first [older_record, example_record, legacy_twin] =
     [example_record, legacy_twin, older_record]"
proof -
  have r: "reachable (init [])" by (rule r_init)
  have m: "mset [older_record, example_record, legacy_twin] =
      {#example_record, legacy_twin, older_record#}" by simp
  have d: "creation_date legacy_twin < creation_date example_record"
      "creation_date older_record < creation_date legacy_twin"
    by (simp_all add: legacy_twin_def older_record_def example_record_def)
  from discovery_newest_first [of "init []" example_tree 0 False 0 "[]"
      "[older_record, example_record, legacy_twin]" example_record legacy_twin older_record] r m d
  show ?thesis by simp
qed

subsection \<open>The cache\<close>

text \<open>
  Within 30 seconds of the last scan, with time running forward, a call without
  \<open>force_refresh\<close> returns the cache, and a forced call scans.
\<close>

lemma cache_within_window:
  assumes "characters_cache m = Some cs" "last_scan_time m = Some t0"
    "t0 \<le> t" "t < t0 + 30 * 1000000"
  shows "discover_characters m fs t False = (cs, m)"
proof -
  from assms(3,4) have a: "0 \<le> (t - t0) div 1000000" "(t - t0) div 1000000 < 30"
    by simp_all
  then have "timedelta_seconds (t - t0) < 30"
    by (simp add: timedelta_seconds_def)
  with assms(1,2) show ?thesis
    by (simp add: discover_characters_def cache_usable_def)
qed

lemma force_refresh_scans:
  "fst (discover_characters m fs t True) = fresh_scan fs (scan_locations m)"
  by (simp add: discover_characters_def cache_usable_def Let_def)

text \<open>
  Claim C3. A call 30 seconds or more after the last scan scans again. The code compares
  \<^verbatim>\<open>timedelta.seconds\<close>, the seconds within the day, so one day and five seconds after a
  scan the call still returns the cached list, here for a tree that no longer holds any
  character.
\<close>

theorem stale_cache_after_a_day:
  "(let (r1, m1) = discover_characters (init []) example_tree 0 False;
        (r2, m2) = discover_characters m1 empty_tree (86405 * 1000000) False
    in r1 = [example_record] \<and> r2 = [example_record] \<and> fresh_scan empty_tree [[]] = [] \<and>
       timedelta_seconds (86405 * 1000000 - 0) = 5)"
proof -
  have e: "fresh_scan empty_tree [[]] = []"
    by (simp add: discovery_eval empty_tree_def)
  have t: "timedelta_seconds (86405 * 1000000 - 0) = 5"
    by (simp add: timedelta_seconds_def)
  show ?thesis
    using t by (simp add: discover_characters_def cache_usable_def init_def example_scan Let_def e)
qed

section \<open>Properties of the archive builder\<close>

subsection \<open>The example trees, evaluated\<close>

lemmas zip_eval =
  character_zip_entries_def styles_entries_def style_dir_entries_def consistency_entries_def
  base_metadata_entries_def base_image_entries_def zip_write_def opt_truthy_def
  batch_zip_entries_def batch_character_entries_def char_folder_def
  exists_path_def is_dir_path_def iterdir_def glob_def fnmatch_def path_name_def

lemma base_only_scan: "fresh_scan base_only_tree [[]] = [base_only_record]"
  by (simp add: discovery_eval base_only_tree_def base_only_record_def)

lemma mixed_scan: "fresh_scan mixed_tree [[]] = [mixed_record]"
  by (simp add: discovery_eval mixed_tree_def mixed_record_def)




lemma mixed_entries:
  "character_zip_entries mixed_tree mixed_record False =
     Inr [''ConsistencyTests/Realistic_001.png'', ''ConsistencyTests/sketch.png'']"
  by (simp add: zip_eval mixed_tree_def mixed_record_def)


lemma broken_entries:
  "character_zip_entries broken_tree base_only_record True =
     Inl (NotADirectoryError [''Session_1'', ''Char_A'', ''Styles''])"
  by (simp add: zip_eval broken_tree_def base_only_record_def)

lemma broken_batch:
  "batch_zip_entries broken_tree [base_only_record] True =
     Inl (NotADirectoryError [''Session_1'', ''Char_A'', ''Styles''])"
  by (simp add: zip_eval broken_tree_def base_only_record_def)

subsection \<open>Prefixes of entry names\<close>

lemma startswith_Nil [simp]: "startswith s []"
  by (simp add: startswith_def)

lemma startswith_Cons [simp]: "startswith (a # s) (b # p) \<longleftrightarrow> a = b \<and> startswith s p"
  by (simp add: startswith_def)

lemma startswith_Nil_Cons [simp]: "\<not> startswith [] (b # p)"
  by (simp add: startswith_def)

lemma startswith_append [simp]: "startswith (p @ s) p"
  by (simp add: startswith_def)

lemma startswith_append2 [simp]: "startswith ((p @ s) @ t) p"
  by (simp add: startswith_def)

lemma startswith_zip_write [simp]: "startswith (zip_write fs f (p @ s)) p"
  by (simp add: zip_write_def)


lemma glob_missing: "\<not> exists_path fs p \<Longrightarrow> glob fs p pre suf = []"
  by (simp add: glob_def exists_path_def)

lemma iterdir_dir: "is_dir_path fs p \<Longrightarrow> \<exists>ds. iterdir fs p = Inr ds"
  by (auto simp: is_dir_path_def iterdir_def split: option.splits node.splits)

subsection \<open>The blocks of one character\<close>








subsection \<open>Failing softly, and building from nothing\<close>

text \<open>
  Claim C7. The batch build of an empty list returns failure, a message and no path.
  Neither build raises: the result is always a triple, with a path exactly when it reports
  success, and an exception inside the build comes back as failure with its message and no
  path.
\<close>

theorem builds_fail_softly:
  "create_batch_zip fs tmp [] im = (False, NoCharactersSelected, None) \<and>
   fst (create_character_zip fs tmp c im) = (snd (snd (create_character_zip fs tmp c im)) \<noteq> None) \<and>
   fst (create_batch_zip fs tmp cs im) = (snd (snd (create_batch_zip fs tmp cs im)) \<noteq> None) \<and>
   (character_zip_entries fs c im = Inl e \<longrightarrow>
      create_character_zip fs tmp c im = (False, ErrorCreatingZip e, None)) \<and>
   (cs \<noteq> [] \<and> batch_zip_entries fs cs im = Inl e \<longrightarrow>
      create_batch_zip fs tmp cs im = (False, ErrorCreatingBatchZip e, None))"
proof (intro conjI impI)
  show "create_batch_zip fs tmp [] im = (False, NoCharactersSelected, None)"
    by (simp add: create_batch_zip_def)
  show "fst (create_character_zip fs tmp c im) =
      (snd (snd (create_character_zip fs tmp c im)) \<noteq> None)"
    by (cases "character_zip_entries fs c im") (simp_all add: create_character_zip_def)
  show "fst (create_batch_zip fs tmp cs im) = (snd (snd (create_batch_zip fs tmp cs im)) \<noteq> None)"
    by (cases "batch_zip_entries fs cs im") (simp_all add: create_batch_zip_def)
next
  assume "character_zip_entries fs c im = Inl e"
  then show "create_character_zip fs tmp c im = (False, ErrorCreatingZip e, None)"
    by (simp add: create_character_zip_def)
next
  assume "cs \<noteq> [] \<and> batch_zip_entries fs cs im = Inl e"
  then show "create_batch_zip fs tmp cs im = (False, ErrorCreatingBatchZip e, None)"
    by (simp add: create_batch_zip_def)
qed

theorem builds_fail_softly_witness:
  "character_zip_entries broken_tree base_only_record True =
     Inl (NotADirectoryError [''Session_1'', ''Char_A'', ''Styles'']) \<and>
   create_character_zip broken_tree ''/tmp/tmp1.zip'' base_only_record True =
     (False, ErrorCreatingZip (NotADirectoryError [''Session_1'', ''Char_A'', ''Styles'']), None) \<and>
   [base_only_record] \<noteq> [] \<and>
   batch_zip_entries broken_tree [base_only_record] True =
     Inl (NotADirectoryError [''Session_1'', ''Char_A'', ''Styles'']) \<and>
   create_batch_zip broken_tree ''/tmp/tmp1.zip'' [base_only_record] True =
     (False, ErrorCreatingBatchZip (NotADirectoryError [''Session_1'', ''Char_A'', ''Styles'']), None)"
  using builds_fail_softly [of broken_tree "''/tmp/tmp1.zip''" True base_only_record
      "[base_only_record]" "NotADirectoryError [''Session_1'', ''Char_A'', ''Styles'']"]
    broken_entries broken_batch
  by simp



subsection \<open>The batch archive\<close>

lemma startswith_same_prefix [simp]: "startswith (a @ s) (a @ p) \<longleftrightarrow> startswith s p"
  by (simp add: startswith_def)







subsection \<open>The entries under ConsistencyTests\<close>

lemma startswith_first: "startswith e (a # p) \<Longrightarrow> startswith e (b # q) \<Longrightarrow> a = b"
  by (cases e) simp_all

lemma style_dir_entries_styles:
  "e \<in> set (style_dir_entries fs [] im d) \<Longrightarrow> startswith e ''Styles/''"
  by (auto simp: style_dir_entries_def zip_write_def split: if_splits)

lemma styles_entries_styles:
  "styles_entries fs [] c im = Inr st \<Longrightarrow> e \<in> set st \<Longrightarrow> startswith e ''Styles/''"
  by (auto simp: styles_entries_def Let_def split: if_splits sum.splits
           dest: style_dir_entries_styles)

lemma consistency_entries_all:
  "consistency_entries fs [] c im =
     map (\<lambda>f. zip_write fs f (''ConsistencyTests/'' @ path_name f))
       (glob fs (path c @ [''ConsistencyTests'']) [] ''.png'' @
        (if im then glob fs (path c @ [''ConsistencyTests'']) [] ''.json'' else []))"
  by (cases "exists_path fs (path c @ [''ConsistencyTests''])")
     (simp_all add: consistency_entries_def Let_def glob_missing)

lemma consistency_entries_under:
  "e \<in> set (consistency_entries fs [] c im) \<Longrightarrow> startswith e ''ConsistencyTests/''"
  by (auto simp: consistency_entries_def zip_write_def Let_def split: if_splits)

lemma base_image_entries_named:
  assumes "\<forall>bp. base_image_path c = Some bp \<longrightarrow> path_name bp \<in> set base_image_candidates"
    and "e \<in> set (base_image_entries fs [] c)"
  shows "\<not> startswith e ''ConsistencyTests/''"
proof -
  from assms(2) obtain bp where bp: "base_image_path c = Some bp"
    and e: "e = zip_write fs bp (path_name bp)"
    by (cases "base_image_path c") (auto simp: base_image_entries_def split: if_splits)
  from assms(1) bp have "path_name bp = ''Base-Character.png'' \<or> path_name bp = ''Base-Image.png''"
    by (simp add: base_image_candidates_def)
  with e show ?thesis
    by (auto simp: zip_write_def)
qed

lemma realistic_name_png: "fnmatch ''Realistic_'' ''.png'' n \<Longrightarrow> fnmatch [] ''.png'' n"
  by (simp add: fnmatch_def)

lemma realistic_are_png:
  "set (glob fs p ''Realistic_'' ''.png'') \<subseteq> set (glob fs p [] ''.png'')"
proof (cases "lookup fs p")
  case None
  then show ?thesis by (simp add: glob_def)
next
  case (Some nd)
  show ?thesis
  proof (cases nd)
    case (File sz ct js)
    with Some show ?thesis by (simp add: glob_def)
  next
    case (Dir sz ct cs)
    have "set (filter (\<lambda>(name, c). fnmatch ''Realistic_'' ''.png'' name) cs)
          \<subseteq> set (filter (\<lambda>(name, c). fnmatch [] ''.png'' name) cs)"
      by (auto dest: realistic_name_png)
    then have "(\<lambda>(name, c). p @ [name]) ` set (filter (\<lambda>(name, c). fnmatch ''Realistic_'' ''.png'' name) cs)
          \<subseteq> (\<lambda>(name, c). p @ [name]) ` set (filter (\<lambda>(name, c). fnmatch [] ''.png'' name) cs)"
      by (rule image_mono)
    with Some Dir show ?thesis by (simp add: glob_def)
  qed
qed

text \<open>
  Claim C5, as the code has it. In a single-character archive the entries under
  \<^verbatim>\<open>ConsistencyTests/\<close> are one for every entry of that folder whose name ends in
  \<^verbatim>\<open>.png\<close>, whatever it starts with, followed when \<open>include_metadata\<close> is true by one for
  every name ending in \<^verbatim>\<open>.json\<close>; the images that \<open>realistic_count\<close> counts are among
  them. The base image is taken to carry one of its two conventional names.
\<close>

theorem consistency_entries_are_all_png:
  assumes "character_zip_entries fs c im = Inr entries"
    and "\<forall>bp. base_image_path c = Some bp \<longrightarrow> path_name bp \<in> set base_image_candidates"
  shows "filter (\<lambda>e. startswith e ''ConsistencyTests/'') entries =
           map (\<lambda>f. zip_write fs f (''ConsistencyTests/'' @ path_name f))
             (glob fs (path c @ [''ConsistencyTests'']) [] ''.png'' @
              (if im then glob fs (path c @ [''ConsistencyTests'']) [] ''.json'' else [])) \<and>
         set (glob fs (path c @ [''ConsistencyTests'']) ''Realistic_'' ''.png'') \<subseteq>
           set (glob fs (path c @ [''ConsistencyTests'']) [] ''.png'')"
proof -
  let ?P = "\<lambda>e. startswith e ''ConsistencyTests/''"
  from assms(1) obtain st where st: "styles_entries fs [] c im = Inr st"
    and entries: "entries = base_image_entries fs [] c @ base_metadata_entries [] c im @
        consistency_entries fs [] c im @ st @
        (if im then [''character_summary.json'', ''README.txt''] else [])"
    by (auto simp: character_zip_entries_def split: sum.splits)
  have b: "filter ?P (base_image_entries fs [] c) = []"
    using base_image_entries_named [OF assms(2)] by (simp add: filter_empty_conv)
  have m: "filter ?P (base_metadata_entries [] c im) = []"
    by (simp add: base_metadata_entries_def)
  have k: "filter ?P (consistency_entries fs [] c im) = consistency_entries fs [] c im"
    using consistency_entries_under by (simp add: filter_id_conv)
  have s: "filter ?P st = []"
  proof -
    have "\<not> ?P e" if "e \<in> set st" for e
    proof
      assume "startswith e ''ConsistencyTests/''"
      moreover from st that have "startswith e ''Styles/''" by (rule styles_entries_styles)
      ultimately have "CHR ''C'' = CHR ''S''" by (rule startswith_first)
      then show False by simp
    qed
    then show ?thesis by (simp add: filter_empty_conv)
  qed
  have t: "filter ?P (if im then [''character_summary.json'', ''README.txt''] else []) = []"
    by simp
  have "filter ?P entries = consistency_entries fs [] c im"
    by (simp only: entries filter_append b m k s t append_Nil append_Nil2)
  then show ?thesis
    by (simp only: consistency_entries_all realistic_are_png simp_thms)
qed

theorem consistency_entries_are_all_png_witness:
  "character_zip_entries mixed_tree mixed_record False =
     Inr [''ConsistencyTests/Realistic_001.png'', ''ConsistencyTests/sketch.png''] \<and>
   base_image_path mixed_record = None \<and>
   filter (\<lambda>e. startswith e ''ConsistencyTests/'')
     [''ConsistencyTests/Realistic_001.png'', ''ConsistencyTests/sketch.png''] =
   map (\<lambda>f. zip_write mixed_tree f (''ConsistencyTests/'' @ path_name f))
     (glob mixed_tree (path mixed_record @ [''ConsistencyTests'']) [] ''.png'')"
proof -
  have n: "base_image_path mixed_record = None" by (simp add: mixed_record_def)
  then have h: "\<forall>bp. base_image_path mixed_record = Some bp \<longrightarrow>
      path_name bp \<in> set base_image_candidates" by simp
  from consistency_entries_are_all_png [OF mixed_entries h]
  have "filter (\<lambda>e. startswith e ''ConsistencyTests/'')
     [''ConsistencyTests/Realistic_001.png'', ''ConsistencyTests/sketch.png''] =
   map (\<lambda>f. zip_write mixed_tree f (''ConsistencyTests/'' @ path_name f))
     (glob mixed_tree (path mixed_record @ [''ConsistencyTests'']) [] ''.png'' @
      (if False then glob mixed_tree (path mixed_record @ [''ConsistencyTests'']) [] ''.json''
       else []))"
    by (rule conjunct1)
  then have f: "filter (\<lambda>e. startswith e ''ConsistencyTests/'')
     [''ConsistencyTests/Realistic_001.png'', ''ConsistencyTests/sketch.png''] =
   map (\<lambda>f. zip_write mixed_tree f (''ConsistencyTests/'' @ path_name f))
     (glob mixed_tree (path mixed_record @ [''ConsistencyTests'']) [] ''.png'')"
    by (simp only: if_False append_Nil2)
  from mixed_entries n f show ?thesis by (intro conjI)
qed

text \<open>
  The claim as it was stated fails: a folder with one image named \<^verbatim>\<open>Realistic_001.png\<close> and
  one named \<^verbatim>\<open>sketch.png\<close> is counted as one realistic image, and both files are in
  the archive.
\<close>

theorem consistency_entries_counterexample:
  "fresh_scan mixed_tree [[]] = [mixed_record] \<and>
   realistic_count mixed_record = 1 \<and>
   glob mixed_tree (path mixed_record @ [''ConsistencyTests'']) ''Realistic_'' ''.png'' =
     [[''Session_1'', ''Char_A'', ''ConsistencyTests'', ''Realistic_001.png'']] \<and>
   character_zip_entries mixed_tree mixed_record False =
     Inr [''ConsistencyTests/Realistic_001.png'', ''ConsistencyTests/sketch.png''] \<and>
   fnmatch ''Realistic_'' ''.png'' ''sketch.png'' = False"
proof -
  have g: "glob mixed_tree (path mixed_record @ [''ConsistencyTests'']) ''Realistic_'' ''.png'' =
     [[''Session_1'', ''Char_A'', ''ConsistencyTests'', ''Realistic_001.png'']]"
    by (simp add: glob_def fnmatch_def mixed_tree_def mixed_record_def)
  have r: "realistic_count mixed_record = 1" by (simp add: mixed_record_def)
  have f: "fnmatch ''Realistic_'' ''.png'' ''sketch.png'' = False" by (simp add: fnmatch_def)
  from mixed_scan r g mixed_entries f show ?thesis by blast
qed

subsection \<open>The archive of one complete character\<close>



lemma glob_exists: "glob fs p pre suf \<noteq> [] \<Longrightarrow> exists_path fs p"
  using glob_missing by blast


lemma path_name_snoc2 [simp]: "path_name (p @ [a, b]) = b"
  by (simp add: path_name_def)




section \<open>Properties of the size estimator\<close>

subsection \<open>Rounding to a double\<close>

lemma round_half_even_near:
  assumes "0 < d"
  shows "2 * (round_half_even n d * d) \<le> 2 * n + d \<and> 2 * n \<le> 2 * (round_half_even n d * d) + d"
proof -
  define q where "q = n div d"
  define r where "r = n mod d"
  have n: "n = q * d + r" by (simp add: q_def r_def)
  have r: "r < d" using assms by (simp add: r_def)
  have rhe: "round_half_even n d =
      (if 2 * r < d then q else if d < 2 * r then q + 1 else if even q then q else q + 1)"
    by (simp add: round_half_even_def q_def r_def Let_def)
  show ?thesis
  proof (cases "2 * r < d")
    case True
    with rhe have "round_half_even n d * d = q * d" by simp
    with n True show ?thesis by simp
  next
    case False
    show ?thesis
    proof (cases "round_half_even n d = q")
      case True
      with rhe False have "2 * r = d" by (auto split: if_splits)
      with True n show ?thesis by simp
    next
      case False
      with rhe have "round_half_even n d = q + 1" by (auto split: if_splits)
      then have "round_half_even n d * d = q * d + d" by (simp add: algebra_simps)
      with n r \<open>\<not> 2 * r < d\<close> show ?thesis by simp
    qed
  qed
qed

lemma bit_length_le: "n < 2 ^ m \<Longrightarrow> bit_length n \<le> m"
proof (induction m arbitrary: n)
  case 0
  then show ?case by (simp add: bit_length.simps)
next
  case (Suc m)
  show ?case
  proof (cases "n = 0")
    case True
    then show ?thesis by (simp add: bit_length.simps)
  next
    case False
    from Suc.prems have "n div 2 < 2 ^ m" by simp
    then have "bit_length (n div 2) \<le> m" by (rule Suc.IH)
    with False show ?thesis by (subst bit_length.simps) simp
  qed
qed

lemma round53_exact: "n < 2 ^ 53 \<Longrightarrow> round53 n = n"
proof -
  assume "n < 2 ^ 53"
  then have "bit_length n \<le> 53" by (rule bit_length_le)
  then show ?thesis by (simp add: round53_def round_half_even_def)
qed

lemma round53_near:
  assumes "n < 2 ^ 103"
  shows "\<exists>d. 0 < d \<and> d \<le> 2 ^ 50 \<and> 2 * round53 n \<le> 2 * n + d \<and> 2 * n \<le> 2 * round53 n + d"
proof -
  define k where "k = bit_length n - 53"
  from assms have "bit_length n \<le> 103" by (rule bit_length_le)
  then have "k \<le> 50" by (simp add: k_def)
  then have d: "(2::nat) ^ k \<le> 2 ^ 50" by (rule power_increasing) simp
  have r: "round53 n = round_half_even n (2 ^ k) * 2 ^ k"
    by (simp add: round53_def k_def Let_def)
  have "0 < (2::nat) ^ k" by simp
  from round_half_even_near [OF this, of n] r d show ?thesis
    by (intro exI [of _ "2 ^ k"]) simp
qed

text \<open>
  Below \<open>2 ^ 50\<close> bytes the product with the double \<open>0.7\<close>, cut to an integer, is the
  floor of seven tenths or one less.
\<close>

lemma int_times_07_bounds:
  assumes "t < 2 ^ 50"
  shows "\<exists>e. int_times_07 t = Inr e \<and> e \<le> 7 * t div 10 \<and> 7 * t div 10 \<le> e + 1"
proof -
  from assms have t53: "t < 2 ^ 53" by simp
  then have rt: "round53 t = t" by (rule round53_exact)
  define P where "P = t * mantissa_07"
  define R where "R = round53 P"
  define e where "e = R div 2 ^ 53"
  define F where "F = 7 * t div 10"
  have m: "10 * P + 4 * t = 7 * t * 9007199254740992"
    by (simp add: P_def mantissa_07_def)
  from assms have "t * mantissa_07 < 2 ^ 50 * 2 ^ 53"
    by (intro mult_strict_mono) (simp_all add: mantissa_07_def)
  then have "P < 2 ^ 103" by (simp add: P_def)
  from round53_near [OF this] obtain d where
    d: "0 < d" "d \<le> 1125899906842624" "2 * R \<le> 2 * P + d" "2 * P \<le> 2 * R + d"
    by (auto simp: R_def)
  have e1: "e * 9007199254740992 \<le> R" and e2: "R < (e + 1) * 9007199254740992"
    using div_mult_mod_eq [of R "2 ^ 53"] mod_less_divisor [of "2 ^ 53" R]
    by (simp_all add: e_def algebra_simps)
  have f1: "10 * F \<le> 7 * t" and f2: "7 * t \<le> 10 * F + 9"
    by (simp_all add: F_def)
  from assms have t: "t < 1125899906842624" by simp
  have up: "e \<le> F" using m d e1 f2 t by linarith
  have lo: "F \<le> e + 1"
  proof -
    from e2 have e2': "R < e * 9007199254740992 + 9007199254740992"
      by (simp add: algebra_simps)
    from d(4) e2' have s1: "20 * P < 20 * (e * 9007199254740992) + 20 * 9007199254740992 + 10 * d"
      by linarith
    from f1 have "10 * F * (2 * 9007199254740992) \<le> 7 * t * (2 * 9007199254740992)"
      by (rule mult_le_mono1)
    then have s2: "20 * (F * 9007199254740992) \<le> 14 * (t * 9007199254740992)"
      by (simp add: algebra_simps)
    from m have s3: "20 * P + 8 * t = 14 * (t * 9007199254740992)"
      by (simp add: algebra_simps)
    from s1 s2 s3 d(2) t
    have "20 * (F * 9007199254740992) < 20 * (e * 9007199254740992) + 40 * 9007199254740992"
      by linarith
    then have "F * 9007199254740992 < (e + 2) * 9007199254740992"
      by (simp add: algebra_simps)
    then have "F < e + 2" by (rule mult_less_cancel2 [THEN iffD1, THEN conjunct2])
    then show ?thesis by simp
  qed
  have "int_times_07 t = Inr e"
    using t53 by (simp add: int_times_07_def rt e_def R_def P_def)
  with up lo show ?thesis by (auto simp: F_def)
qed

subsection \<open>The loop and the closed sum\<close>

lemma style_dirs_sum:
  "sum_list (map (style_dir_size fs) ds) =
   sum_list (map (stat_size fs) (concat (map (\<lambda>d. glob fs d [] ''.png'') (filter (is_dir_path fs) ds))))"
  by (induction ds) (simp_all add: style_dir_size_def)

lemma character_size_listable:
  assumes "styles_listable fs c"
  shows "character_size fs c = Inr (image_bytes fs c)"
proof (cases "exists_path fs (path c @ [''Styles''])")
  case False
  then have "listing fs (path c @ [''Styles'']) = []"
    by (simp add: listing_def iterdir_def exists_path_def)
  with False show ?thesis
    by (cases "exists_path fs (path c @ [''ConsistencyTests''])")
       (simp_all add: character_size_def image_bytes_def Let_def glob_missing)
next
  case True
  with assms have "is_dir_path fs (path c @ [''Styles''])" by (simp add: styles_listable_def)
  then obtain ds where ds: "iterdir fs (path c @ [''Styles'']) = Inr ds"
    by (auto dest: iterdir_dir)
  then have "listing fs (path c @ [''Styles'']) = ds" by (simp add: listing_def)
  with True ds show ?thesis
    by (cases "exists_path fs (path c @ [''ConsistencyTests''])")
       (simp_all add: character_size_def image_bytes_def Let_def glob_missing style_dirs_sum)
qed

lemma character_size_unlistable:
  assumes "\<not> styles_listable fs c"
  shows "\<exists>e. character_size fs c = Inl e"
proof -
  from assms have ex: "exists_path fs (path c @ [''Styles''])"
    and nd: "\<not> is_dir_path fs (path c @ [''Styles''])"
    by (simp_all add: styles_listable_def)
  from ex obtain n where n: "lookup fs (path c @ [''Styles'']) = Some n"
    by (auto simp: exists_path_def)
  with nd obtain sz ct js where "n = File sz ct js"
    by (cases n) (simp_all add: is_dir_path_def)
  with n have "iterdir fs (path c @ [''Styles'']) = Inl (NotADirectoryError (path c @ [''Styles'']))"
    by (simp add: iterdir_def)
  with ex show ?thesis by (simp add: character_size_def Let_def)
qed

lemma total_size_loop_listable:
  "\<forall>c \<in> set cs. styles_listable fs c \<Longrightarrow>
   total_size_loop fs cs acc = Inr (acc + sum_list (map (image_bytes fs) cs))"
  by (induction cs arbitrary: acc) (simp_all add: character_size_listable)

lemma total_size_loop_unlistable:
  "\<exists>c \<in> set cs. \<not> styles_listable fs c \<Longrightarrow> \<exists>e. total_size_loop fs cs acc = Inl e"
proof (induction cs arbitrary: acc)
  case Nil
  then show ?case by simp
next
  case (Cons c cs)
  show ?case
  proof (cases "character_size fs c")
    case (Inl e)
    then show ?thesis by simp
  next
    case (Inr n)
    with character_size_unlistable [of fs c] have "styles_listable fs c" by auto
    with Cons.prems have "\<exists>c \<in> set cs. \<not> styles_listable fs c" by auto
    then have "\<exists>e. total_size_loop fs cs (acc + n) = Inl e" by (rule Cons.IH)
    with Inr show ?thesis by simp
  qed
qed

subsection \<open>Two products, evaluated\<close>

lemma bit_length_gt: "2 ^ m \<le> n \<Longrightarrow> m < bit_length n"
proof (induction m arbitrary: n)
  case 0
  then show ?case by (subst bit_length.simps) simp
next
  case (Suc m)
  then have "2 ^ m \<le> n div 2" by simp
  then have "m < bit_length (n div 2)" by (rule Suc.IH)
  moreover have "0 < (2::nat) ^ Suc m" by simp
  with Suc.prems have "n \<noteq> 0" by linarith
  ultimately show ?case by (subst bit_length.simps) simp
qed

lemma bit_length_eq: "2 ^ m \<le> n \<Longrightarrow> n < 2 ^ Suc m \<Longrightarrow> bit_length n = Suc m"
  using bit_length_gt [of m n] bit_length_le [of n "Suc m"] by simp

lemma int_times_07_90: "int_times_07 90 = Inr 62"
proof -
  have "bit_length 567453553048682460 = Suc 58" by (rule bit_length_eq) simp_all
  then have "round53 567453553048682460 = 567453553048682432"
    by (simp add: round53_def round_half_even_def Let_def)
  moreover have "round53 90 = 90" by (rule round53_exact) simp
  ultimately show ?thesis by (simp add: int_times_07_def mantissa_07_def)
qed

lemma int_times_07_107: "int_times_07 107 = Inr 74"
proof -
  have "bit_length 674639224180100258 = Suc 59" by (rule bit_length_eq) simp_all
  then have "round53 674639224180100258 = 674639224180100224"
    by (simp add: round53_def round_half_even_def Let_def)
  moreover have "round53 107 = 107" by (rule round53_exact) simp
  ultimately show ?thesis by (simp add: int_times_07_def mantissa_07_def)
qed

lemma size_str_62: "size_str 62 = ''0.1 KB''"
proof -
  have "round53 62 = 62" by (rule round53_exact) simp
  then show ?thesis
    by (simp add: size_str_def format_1f_def round_half_even_def Let_def show_nat.simps)
qed

lemma size_str_74: "size_str 74 = ''0.1 KB''"
proof -
  have "round53 74 = 74" by (rule round53_exact) simp
  then show ?thesis
    by (simp add: size_str_def format_1f_def round_half_even_def Let_def show_nat.simps)
qed

lemma example_bytes: "total_image_bytes example_tree [example_record] = 107"
  by (simp add: total_image_bytes_def image_bytes_def listing_def stat_size_def zip_eval
      example_tree_def example_char_def example_record_def)

lemma base_only_bytes: "total_image_bytes base_only_tree [base_only_record] = 90"
  by (simp add: total_image_bytes_def image_bytes_def listing_def stat_size_def zip_eval
      base_only_tree_def base_only_record_def)

lemma example_listable: "styles_listable example_tree example_record"
  by (simp add: styles_listable_def zip_eval example_tree_def example_char_def example_record_def)

lemma base_only_listable: "styles_listable base_only_tree base_only_record"
  by (simp add: styles_listable_def zip_eval base_only_tree_def base_only_record_def)

lemma broken_unlistable: "\<not> styles_listable broken_tree base_only_record"
  by (simp add: styles_listable_def zip_eval broken_tree_def base_only_record_def)

subsection \<open>The estimate\<close>

text \<open>
  Claim C9, as the code has it. When every record's \<^verbatim>\<open>Styles\<close> path is missing or a
  directory, the estimator returns \<^verbatim>\<open>int(total * 0.7)\<close> as double precision computes it,
  where the total is the closed sum of image sizes: of the existing base image, of every
  \<^verbatim>\<open>*.png\<close> entry of \<^verbatim>\<open>ConsistencyTests\<close> and of every \<^verbatim>\<open>*.png\<close> entry of each subdirectory
  of \<^verbatim>\<open>Styles\<close>; no metadata file is in the sum and the function has no
  \<^verbatim>\<open>include_metadata\<close> parameter. The size string is formatted from the estimate. For a
  total below \<open>2 ^ 50\<close> bytes the estimate is the floor of seven tenths of the total, or
  one less. When some record's \<^verbatim>\<open>Styles\<close> path is a regular file, listing it raises and
  the estimator returns \<^verbatim>\<open>(0, "Unknown")\<close>.
\<close>

theorem estimate_is_rounded_product:
  "((\<forall>c \<in> set cs. styles_listable fs c) \<longrightarrow>
      get_estimated_zip_size fs cs =
        (case int_times_07 (total_image_bytes fs cs) of
           Inl e \<Rightarrow> (0, ''Unknown'')
         | Inr est \<Rightarrow> (est, size_str est))) \<and>
   ((\<forall>c \<in> set cs. styles_listable fs c) \<and> total_image_bytes fs cs < 2 ^ 50 \<longrightarrow>
      (\<exists>est. int_times_07 (total_image_bytes fs cs) = Inr est \<and>
             get_estimated_zip_size fs cs = (est, size_str est) \<and>
             est \<le> floor_estimate fs cs \<and> floor_estimate fs cs \<le> est + 1)) \<and>
   ((\<exists>c \<in> set cs. \<not> styles_listable fs c) \<longrightarrow>
      get_estimated_zip_size fs cs = (0, ''Unknown''))"
proof (intro conjI impI)
  assume l: "\<forall>c \<in> set cs. styles_listable fs c"
  then have "total_size_loop fs cs 0 = Inr (total_image_bytes fs cs)"
    by (simp add: total_size_loop_listable total_image_bytes_def)
  then show "get_estimated_zip_size fs cs =
      (case int_times_07 (total_image_bytes fs cs) of
         Inl e \<Rightarrow> (0, ''Unknown'')
       | Inr est \<Rightarrow> (est, size_str est))"
    by (simp add: get_estimated_zip_size_def)
next
  assume "(\<forall>c \<in> set cs. styles_listable fs c) \<and> total_image_bytes fs cs < 2 ^ 50"
  then have l: "\<forall>c \<in> set cs. styles_listable fs c" and s: "total_image_bytes fs cs < 2 ^ 50"
    by blast+
  from l have loop: "total_size_loop fs cs 0 = Inr (total_image_bytes fs cs)"
    by (simp add: total_size_loop_listable total_image_bytes_def)
  from int_times_07_bounds [OF s] obtain est where
    est: "int_times_07 (total_image_bytes fs cs) = Inr est"
      "est \<le> 7 * total_image_bytes fs cs div 10" "7 * total_image_bytes fs cs div 10 \<le> est + 1"
    by blast
  from loop est(1) have "get_estimated_zip_size fs cs = (est, size_str est)"
    by (simp add: get_estimated_zip_size_def)
  with est show "\<exists>est. int_times_07 (total_image_bytes fs cs) = Inr est \<and>
      get_estimated_zip_size fs cs = (est, size_str est) \<and>
      est \<le> floor_estimate fs cs \<and> floor_estimate fs cs \<le> est + 1"
    by (simp add: floor_estimate_def)
next
  assume "\<exists>c \<in> set cs. \<not> styles_listable fs c"
  then obtain e where "total_size_loop fs cs 0 = Inl e"
    using total_size_loop_unlistable by blast
  then show "get_estimated_zip_size fs cs = (0, ''Unknown'')"
    by (simp add: get_estimated_zip_size_def)
qed

theorem estimate_is_rounded_product_witness:
  "total_image_bytes example_tree [example_record] = 107 \<and>
   floor_estimate example_tree [example_record] = 74 \<and>
   get_estimated_zip_size example_tree [example_record] = (74, ''0.1 KB'') \<and>
   get_estimated_zip_size broken_tree [base_only_record] = (0, ''Unknown'')"
proof -
  note t1 = estimate_is_rounded_product [of "[example_record]" example_tree]
  note t2 = estimate_is_rounded_product [of "[base_only_record]" broken_tree]
  have l: "\<forall>c \<in> set [example_record]. styles_listable example_tree c"
    by (simp add: example_listable)
  have s: "total_image_bytes example_tree [example_record] < 2 ^ 50"
    by (simp add: example_bytes)
  from t1 l s obtain est where
    est: "int_times_07 (total_image_bytes example_tree [example_record]) = Inr est"
      "get_estimated_zip_size example_tree [example_record] = (est, size_str est)"
    by blast
  from est(1) have "est = 74" by (simp add: example_bytes int_times_07_107)
  with est(2) have a: "get_estimated_zip_size example_tree [example_record] = (74, ''0.1 KB'')"
    by (simp add: size_str_74)
  have "\<exists>c \<in> set [base_only_record]. \<not> styles_listable broken_tree c"
    by (simp add: broken_unlistable)
  with t2 have b: "get_estimated_zip_size broken_tree [base_only_record] = (0, ''Unknown'')"
    by blast
  have c: "floor_estimate example_tree [example_record] = 74"
    by (simp add: floor_estimate_def example_bytes)
  from example_bytes c a b show ?thesis by (intro conjI)
qed

text \<open>
  The claim as it was stated fails on a single image of 90 bytes: seven tenths of 90,
  rounded down, is 63, and the double product \<^verbatim>\<open>90 * 0.7\<close> is just below 63, so the
  estimator returns 62.
\<close>

theorem estimate_floor_counterexample:
  "total_size_loop base_only_tree [base_only_record] 0 = Inr 90 \<and>
   total_image_bytes base_only_tree [base_only_record] = 90 \<and>
   floor_estimate base_only_tree [base_only_record] = 63 \<and>
   get_estimated_zip_size base_only_tree [base_only_record] = (62, ''0.1 KB'')"
proof -
  have "total_size_loop base_only_tree [base_only_record] 0 =
      Inr (0 + sum_list (map (image_bytes base_only_tree) [base_only_record]))"
    by (rule total_size_loop_listable) (simp add: base_only_listable)
  then have a: "total_size_loop base_only_tree [base_only_record] 0 = Inr 90"
    using base_only_bytes by (simp add: total_image_bytes_def)
  have b: "floor_estimate base_only_tree [base_only_record] = 63"
    by (simp add: floor_estimate_def base_only_bytes)
  from a have c: "get_estimated_zip_size base_only_tree [base_only_record] = (62, ''0.1 KB'')"
    by (simp add: get_estimated_zip_size_def int_times_07_90 size_str_62)
  from a base_only_bytes b c show ?thesis by (intro conjI)
qed

end
